theory Spec2Isabelle
  imports Main
begin

section \<open>The job completion check of condor/check\_jobs.py\<close>

text \<open>
  The script lists the samples found in storage, derives from the names of the
  submission directives (the .jdl files) how many jobs each sample has, and then walks
  over the samples and the job indices, collecting the directive and the log of every
  job whose output is missing and which is not running.

  The script reads directories, a file and the command line. These are the inputs of
  the model: the command line is the record \<open>args\<close>, the directory listings and the
  lines of running\_jobs.txt are the record \<open>env\<close>. What the script prints, the two
  lists it fills and the commands it hands to the shell are the record \<open>state\<close>.
  File names are byte strings (ASCII).
\<close>

subsection \<open>Strings\<close>

text \<open>\<^verbatim>\<open>s.split(c)\<close> for a separator of one character: never empty, one more piece
  than there are separators.\<close>

fun split_on :: "char \<Rightarrow> string \<Rightarrow> string list" where
  "split_on c [] = [[]]"
| "split_on c (x # xs) =
     (if x = c then [] # split_on c xs
      else (case split_on c xs of
              [] \<Rightarrow> [[x]]
            | y # ys \<Rightarrow> (x # y) # ys))"

text \<open>\<^verbatim>\<open>sep.join(xs)\<close>.\<close>

fun join :: "string \<Rightarrow> string list \<Rightarrow> string" where
  "join sep [] = []"
| "join sep [x] = x"
| "join sep (x # y # ys) = x @ sep @ join sep (y # ys)"

text \<open>\<^verbatim>\<open>s.endswith(suf)\<close>.\<close>

definition endswith :: "string \<Rightarrow> string \<Rightarrow> bool" where
  "endswith s suf \<longleftrightarrow>
     length suf \<le> length s \<and> drop (length s - length suf) s = suf"

text \<open>\<^verbatim>\<open>s[:-4]\<close>: all but the last four characters, empty for a shorter string.\<close>

definition drop_last4 :: "string \<Rightarrow> string" where
  "drop_last4 s = take (length s - 4) s"

text \<open>\<^verbatim>\<open>str(i)\<close> for an index produced by \<^verbatim>\<open>range\<close>, and for any integer.\<close>

definition digit_char :: "nat \<Rightarrow> char" where
  "digit_char d = char_of (48 + d)"

fun str_nat :: "nat \<Rightarrow> string" where
  "str_nat n = (if n < 10 then [digit_char n] else str_nat (n div 10) @ [digit_char (n mod 10)])"

declare str_nat.simps [simp del]

definition str_int :: "int \<Rightarrow> string" where
  "str_int k = (if k < 0 then CHR ''-'' # str_nat (nat (- k)) else str_nat (nat k))"

text \<open>\<^verbatim>\<open>str(xs)\<close> for a list of integers, as the f-string prints it.\<close>

definition str_list :: "int list \<Rightarrow> string" where
  "str_list xs = ''['' @ join '', '' (map str_int xs) @ '']''"

subsection \<open>Python's int() on a string\<close>

datatype py_error = KeyError | ValueError

text \<open>
  \<^verbatim>\<open>int(s)\<close> in base ten on an ASCII string: white space around the number
  (tab, line feed, vertical tab, form feed, carriage return, space) is dropped, one sign
  may lead, and the digits may be grouped by single underscores. Anything else raises
  ValueError, here \<open>None\<close>.
\<close>

definition is_space :: "char \<Rightarrow> bool" where
  "is_space c \<longleftrightarrow> of_char c \<in> {9, 10, 11, 12, 13, 32 :: nat}"

definition is_digit :: "char \<Rightarrow> bool" where
  "is_digit c \<longleftrightarrow> 48 \<le> (of_char c :: nat) \<and> (of_char c :: nat) \<le> 57"

definition strip :: "string \<Rightarrow> string" where
  "strip s = rev (dropWhile is_space (rev (dropWhile is_space s)))"

definition digits_value :: "string \<Rightarrow> nat" where
  "digits_value ds = foldl (\<lambda>a c. 10 * a + (of_char c - 48)) 0 ds"

definition parse_digits :: "string \<Rightarrow> nat option" where
  "parse_digits s =
     (let groups = split_on CHR ''_'' s in
      if list_all (\<lambda>g. g \<noteq> [] \<and> list_all is_digit g) groups
      then Some (digits_value (concat groups)) else None)"

definition py_int :: "string \<Rightarrow> int option" where
  "py_int s =
     (case strip s of
        [] \<Rightarrow> None
      | c # r \<Rightarrow>
          if c = CHR ''-'' then map_option (\<lambda>n. - int n) (parse_digits r)
          else if c = CHR ''+'' then map_option int (parse_digits r)
          else map_option int (parse_digits (c # r)))"

text \<open>A list comprehension that calls int() on each element: the first element that
  does not parse raises, and the comprehension yields nothing.\<close>

fun int_each :: "string list \<Rightarrow> py_error + int list" where
  "int_each [] = Inr []"
| "int_each (t # ts) =
     (case py_int t of
        None \<Rightarrow> Inl ValueError
      | Some k \<Rightarrow> (case int_each ts of Inl e \<Rightarrow> Inl e | Inr ks \<Rightarrow> Inr (k # ks)))"

subsection \<open>Inputs, outputs and state\<close>

text \<open>
  The command line. The options site, user and analysis only select the storage
  directory \<^verbatim>\<open>xrddir\<close>, whose contents are given by \<open>env\<close>.
\<close>

record args =
  processor :: string
  tag :: string
  year :: string
  submit_missing :: bool
  check_running :: bool

text \<open>
  What the script reads: \<open>samples\<close> is \<^verbatim>\<open>listdir(xrddir)\<close>, in the order the
  system returns it; \<open>jdl_dir\<close> is the listing of the directive directory
  \<^verbatim>\<open>condor/<processor>/<tag>/\<close>; \<open>parquet s\<close> and \<open>pickles s\<close> are the listings
  of the two output directories of sample \<open>s\<close>, \<open>None\<close> when \<^verbatim>\<open>Path(...).exists()\<close>
  is false; \<open>condor_q\<close> holds the lines of running\_jobs.txt after the scheduler query
  of line 87 has written it. A path that exists is taken to be a directory that can be
  listed; any other failure of the file system is outside the model.
\<close>

record env =
  samples :: "string list"
  jdl_dir :: "string list"
  parquet :: "string \<Rightarrow> string list option"
  pickles :: "string \<Rightarrow> string list option"
  condor_q :: "string list"

text \<open>A printed line, plain or in red.\<close>

datatype line = Plain string | Red string

text \<open>
  The two lists the script fills, what it has printed, and the resubmission commands it
  has handed to the shell (lines 119 and 156).
\<close>

record state =
  missing_files :: "string list"
  err_files :: "string list"
  stdout :: "line list"
  submitted :: "string list"

definition init_state :: state where
  "init_state = \<lparr>missing_files = [], err_files = [], stdout = [], submitted = []\<rparr>"

definition print :: "string \<Rightarrow> state \<Rightarrow> state" where
  "print s st = st\<lparr>stdout := stdout st @ [Plain s]\<rparr>"

text \<open>
  Modelled from the spec: \<^verbatim>\<open>print_red\<close> is imported from boostedhh.submit\_utils,
  which is not among the sources at hand. The warnings are printed to standard output;
  a call is recorded as a \<open>Red\<close> line with the text it was given.
\<close>

definition print_red :: "string \<Rightarrow> state \<Rightarrow> state" where
  "print_red s st = st\<lparr>stdout := stdout st @ [Red s]\<rparr>"

text \<open>\<^verbatim>\<open>os.system(cmd)\<close>: the command is handed to the shell, its status is dropped.\<close>

definition os_system :: "string \<Rightarrow> state \<Rightarrow> state" where
  "os_system cmd st = st\<lparr>submitted := submitted st @ [cmd]\<rparr>"

text \<open>A run either ends, or raises with the state it had reached.\<close>

type_synonym result = "(py_error \<times> state) + state"

subsection \<open>Expected job counts (lines 57 to 68)\<close>

definition jdls_of :: "env \<Rightarrow> string list" where
  "jdls_of e = filter (\<lambda>jdl. endswith jdl ''.jdl'') (jdl_dir e)"

text \<open>The condition of the comprehension: the first token is the year and the tokens
  between the first and the last, joined again, are the sample.\<close>

definition jdl_matches :: "string \<Rightarrow> string \<Rightarrow> string \<Rightarrow> bool" where
  "jdl_matches yr sample jdl \<longleftrightarrow>
     hd (split_on CHR ''_'' jdl) = yr \<and>
     join ''_'' (butlast (tl (split_on CHR ''_'' jdl))) = sample"

text \<open>The token that the comprehension hands to int().\<close>

definition jdl_index_token :: "string \<Rightarrow> string" where
  "jdl_index_token jdl = last (split_on CHR ''_'' (drop_last4 jdl))"

definition jdl_indices :: "string \<Rightarrow> string list \<Rightarrow> string \<Rightarrow> py_error + int list" where
  "jdl_indices yr jdls sample =
     int_each (map jdl_index_token (filter (jdl_matches yr sample) jdls))"

text \<open>
  The value of a signed 64-bit integer after an operation whose exact result is \<open>k\<close>:
  the result wraps around.
\<close>

definition int64 :: "int \<Rightarrow> int" where
  "int64 k = (k + 2 ^ 63) mod 2 ^ 64 - 2 ^ 63"

text \<open>The indices that an array of 64-bit integers holds as they are.\<close>

definition fits_int64 :: "int \<Rightarrow> bool" where
  "fits_int64 k \<longleftrightarrow> - (2 ^ 63) \<le> k \<and> k < 2 ^ 63"

text \<open>
  \<^verbatim>\<open>np.sort(x)[-1] + 1\<close>: numpy turns the list into an array of 64-bit integers, and
  the sum of its last element and one is again such an integer, so that it wraps at
  \<open>2 ^ 63 - 1\<close>. The model is that of a list whose elements fit (\<open>fits_int64\<close>); for
  a larger index numpy chooses another element type, which is outside the model, and
  what is proved of the counts assumes that the indices fit.
\<close>

definition sort_last_plus1 :: "int list \<Rightarrow> int" where
  "sort_last_plus1 x = int64 (last (sort x) + 1)"

fun build_jdl_dict ::
  "string \<Rightarrow> string list \<Rightarrow> string list \<Rightarrow> (string \<rightharpoonup> int) \<Rightarrow> py_error + (string \<rightharpoonup> int)" where
  "build_jdl_dict yr jdls [] d = Inr d"
| "build_jdl_dict yr jdls (sample # rest) d =
     (case jdl_indices yr jdls sample of
        Inl e \<Rightarrow> Inl e
      | Inr x \<Rightarrow>
          build_jdl_dict yr jdls rest
            (if length x > 0 then d(sample \<mapsto> sort_last_plus1 x) else d))"

subsection \<open>Running jobs (lines 85 to 91)\<close>

definition running_jobs_of :: "args \<Rightarrow> env \<Rightarrow> string list" where
  "running_jobs_of a e =
     (if check_running a
      then map drop_last4 (filter (\<lambda>s. endswith s (''.sh'' @ [CHR 0x0A])) (condor_q e))
      else [])"

subsection \<open>The check of one sample (lines 98 to 156)\<close>

definition job_name :: "args \<Rightarrow> string \<Rightarrow> nat \<Rightarrow> string" where
  "job_name a sample i = year a @ ''_'' @ sample @ ''_'' @ str_nat i"

definition jdl_file :: "args \<Rightarrow> string \<Rightarrow> nat \<Rightarrow> string" where
  "jdl_file a sample i =
     ''condor/'' @ processor a @ ''/'' @ tag a @ ''/'' @ job_name a sample i @ ''.jdl''"

definition err_file :: "args \<Rightarrow> string \<Rightarrow> nat \<Rightarrow> string" where
  "err_file a sample i =
     ''condor/'' @ processor a @ ''/'' @ tag a @ ''/logs/'' @ job_name a sample i @ ''.err''"

text \<open>The two appends and the optional resubmission, shared by both loops.\<close>

definition report :: "args \<Rightarrow> string \<Rightarrow> nat \<Rightarrow> state \<Rightarrow> state" where
  "report a sample i st =
     (let st1 = st\<lparr>missing_files := missing_files st @ [jdl_file a sample i]\<rparr>;
          st2 = st1\<lparr>err_files := err_files st1 @ [err_file a sample i]\<rparr>
      in if submit_missing a then os_system (''condor_submit '' @ jdl_file a sample i) st2
         else st2)"

definition running_msg :: "string \<Rightarrow> nat \<Rightarrow> string" where
  "running_msg sample i = ''Job #'' @ str_nat i @ '' for sample '' @ sample @ '' is running.''"

text \<open>\<^verbatim>\<open>range(n)\<close> is empty for \<open>n \<le> 0\<close>.\<close>

definition range :: "int \<Rightarrow> nat list" where
  "range n = [0 ..< nat n]"

text \<open>Lines 108 to 119: the loop taken when the parquet directory is absent.\<close>

fun absent_loop :: "args \<Rightarrow> string list \<Rightarrow> string \<Rightarrow> nat list \<Rightarrow> state \<Rightarrow> state" where
  "absent_loop a running sample [] st = st"
| "absent_loop a running sample (i # is) st =
     (if job_name a sample i \<in> set running
      then absent_loop a running sample is (print (running_msg sample i) st)
      else absent_loop a running sample is
             (report a sample i (print (jdl_file a sample i) st)))"

text \<open>The listing of an output directory, each name turned into its index
  (lines 123 to 125 and 132 to 134).\<close>

definition out_index_token :: "string \<Rightarrow> string" where
  "out_index_token out = last (split_on CHR ''_'' (hd (split_on CHR ''.'' out)))"

definition outs_of :: "string list \<Rightarrow> py_error + int list" where
  "outs_of listing = int_each (map out_index_token listing)"

text \<open>
  Lines 139 to 156: the loop over the expected indices. With the processor
  \<^verbatim>\<open>trigger\<close> the name \<^verbatim>\<open>outs_parquet\<close> is unbound and, by the short-circuit
  \<^verbatim>\<open>and\<close>, never read; the model passes it the empty list there.
\<close>

fun index_loop ::
  "args \<Rightarrow> string list \<Rightarrow> string \<Rightarrow> int list \<Rightarrow> int list \<Rightarrow> nat list \<Rightarrow> state \<Rightarrow> state" where
  "index_loop a running sample outs_pickles outs_parquet [] st = st"
| "index_loop a running sample outs_pickles outs_parquet (i # is) st =
     (if int i \<notin> set outs_pickles \<or> (processor a \<noteq> ''trigger'' \<and> int i \<notin> set outs_parquet)
      then
        if job_name a sample i \<in> set running
        then index_loop a running sample outs_pickles outs_parquet is
               (print (running_msg sample i) st)
        else
          let st1 = (if int i \<notin> set outs_pickles
                     then print_red (''Missing output pickle #'' @ str_nat i @ '' for sample '' @ sample) st
                     else st);
              st2 = (if processor a \<noteq> ''trigger'' \<and> int i \<notin> set outs_parquet
                     then print_red (''Missing output parquet #'' @ str_nat i @ '' for sample '' @ sample) st1
                     else st1)
          in index_loop a running sample outs_pickles outs_parquet is (report a sample i st2)
      else index_loop a running sample outs_pickles outs_parquet is st)"

text \<open>Lines 128 to 156, reached with \<^verbatim>\<open>outs_parquet\<close> bound (or never read).\<close>

definition check_pickles ::
  "args \<Rightarrow> env \<Rightarrow> (string \<rightharpoonup> int) \<Rightarrow> string list \<Rightarrow> string \<Rightarrow> int list \<Rightarrow> state \<Rightarrow> result" where
  "check_pickles a e jdl_dict running sample outs_parquet st =
     (case pickles e sample of
        None \<Rightarrow> Inr (print_red (''No pickles directory for '' @ sample @ ''!'') st)
      | Some listing \<Rightarrow>
          (case outs_of listing of
             Inl err \<Rightarrow> Inl (err, st)
           | Inr outs_pickles \<Rightarrow>
               let st1 = (if processor a = ''trigger''
                          then print (''Out pickles: '' @ str_list outs_pickles) st else st)
               in (case jdl_dict sample of
                     None \<Rightarrow> Inl (KeyError, st1)
                   | Some n \<Rightarrow>
                       Inr (index_loop a running sample outs_pickles outs_parquet (range n) st1))))"

text \<open>One turn of the loop over the samples. \<open>Inr\<close> covers both \<^verbatim>\<open>continue\<close> and
  reaching the end of the body.\<close>

definition check_sample ::
  "args \<Rightarrow> env \<Rightarrow> (string \<rightharpoonup> int) \<Rightarrow> string list \<Rightarrow> string \<Rightarrow> state \<Rightarrow> result" where
  "check_sample a e jdl_dict running sample st0 =
     (let st = print (''Checking '' @ sample) st0 in
      if processor a \<noteq> ''trigger'' then
        (case parquet e sample of
           None \<Rightarrow>
             (let st1 = print_red (''No parquet directory for '' @ sample @ ''!'') st in
              case jdl_dict sample of
                None \<Rightarrow> Inr st1
              | Some n \<Rightarrow> Inr (absent_loop a running sample (range n) st1))
         | Some listing \<Rightarrow>
             (case outs_of listing of
                Inl err \<Rightarrow> Inl (err, st)
              | Inr outs_parquet \<Rightarrow>
                  check_pickles a e jdl_dict running sample outs_parquet
                    (print (''Out parquets: '' @ str_list outs_parquet) st)))
      else check_pickles a e jdl_dict running sample [] st)"

fun check_samples ::
  "args \<Rightarrow> env \<Rightarrow> (string \<rightharpoonup> int) \<Rightarrow> string list \<Rightarrow> string list \<Rightarrow> state \<Rightarrow> result" where
  "check_samples a e jdl_dict running [] st = Inr st"
| "check_samples a e jdl_dict running (sample # rest) st =
     (case check_sample a e jdl_dict running sample st of
        Inl r \<Rightarrow> Inl r
      | Inr st' \<Rightarrow> check_samples a e jdl_dict running rest st')"

subsection \<open>The whole script\<close>

text \<open>Lines 159 to 165.\<close>

definition final_report :: "state \<Rightarrow> state" where
  "final_report st =
     (let st1 = print (str_nat (length (missing_files st)) @ '' files to re-run:'') st;
          st2 = fold print (missing_files st) st1;
          st3 = print (CHR 0x0A # ''Error files:'') st2
      in fold print (err_files st) st3)"

definition run :: "args \<Rightarrow> env \<Rightarrow> result" where
  "run a e =
     (case build_jdl_dict (year a) (jdls_of e) (samples e) Map.empty of
        Inl err \<Rightarrow> Inl (err, init_state)
      | Inr jdl_dict \<Rightarrow>
          (case check_samples a e jdl_dict (running_jobs_of a e) (samples e) init_state of
             Inl r \<Rightarrow> Inl r
           | Inr st \<Rightarrow> Inr (final_report st)))"

text \<open>The state a run leaves behind, whether it ended or raised.\<close>

fun final_state :: "result \<Rightarrow> state" where
  "final_state (Inl (err, st)) = st"
| "final_state (Inr st) = st"

subsection \<open>The vocabulary of the properties\<close>

text \<open>
  A directory as the check sees it: absent, holding a name whose index does not parse
  (the listing comprehension raises), or the set of the indices found.
\<close>

datatype listing = Absent | Unreadable | Indices "int set"

definition listing_of :: "string list option \<Rightarrow> listing" where
  "listing_of d =
     (case d of
        None \<Rightarrow> Absent
      | Some names \<Rightarrow> (case outs_of names of Inl err \<Rightarrow> Unreadable | Inr xs \<Rightarrow> Indices (set xs)))"

text \<open>The indices produced in a directory; none when it is absent or unreadable.\<close>

definition produced :: "string list option \<Rightarrow> int set" where
  "produced d = (case listing_of d of Indices xs \<Rightarrow> xs | Absent \<Rightarrow> {} | Unreadable \<Rightarrow> {})"

text \<open>Job \<open>i\<close> of a sample has every output the processor requires.\<close>

definition complete :: "args \<Rightarrow> env \<Rightarrow> string \<Rightarrow> nat \<Rightarrow> bool" where
  "complete a e sample i \<longleftrightarrow>
     int i \<in> produced (pickles e sample) \<and>
     (processor a = ''trigger'' \<or> int i \<in> produced (parquet e sample))"

definition is_running :: "args \<Rightarrow> string list \<Rightarrow> string \<Rightarrow> nat \<Rightarrow> bool" where
  "is_running a running sample i \<longleftrightarrow> job_name a sample i \<in> set running"

text \<open>The sample is passed over by the guard of lines 128 to 130.\<close>

definition skipped :: "args \<Rightarrow> env \<Rightarrow> string \<Rightarrow> bool" where
  "skipped a e sample \<longleftrightarrow>
     pickles e sample = None \<and> (processor a = ''trigger'' \<or> parquet e sample \<noteq> None)"

text \<open>
  A second description of the check of one sample, in terms of what the directories
  hold rather than of their listings: the error raised, or the indices reported, in the
  order of their reporting. It serves to state and prove the properties; that the
  script agrees with it is proved below (\<open>check_sample_raises\<close>,
  \<open>check_sample_returns\<close>). The first argument stands for the parquet directory, which
  the processor \<^verbatim>\<open>trigger\<close> does not look at.
\<close>

definition sample_outcome ::
  "args \<Rightarrow> listing \<Rightarrow> listing \<Rightarrow> int option \<Rightarrow> string set \<Rightarrow> string \<Rightarrow> py_error + nat list" where
  "sample_outcome a secondary primary expected running sample =
     (case (if processor a = ''trigger'' then Indices UNIV else secondary) of
        Absent \<Rightarrow>
          (case expected of
             None \<Rightarrow> Inr []
           | Some n \<Rightarrow> Inr (filter (\<lambda>i. job_name a sample i \<notin> running) (range n)))
      | Unreadable \<Rightarrow> Inl ValueError
      | Indices sec \<Rightarrow>
          (case primary of
             Absent \<Rightarrow> Inr []
           | Unreadable \<Rightarrow> Inl ValueError
           | Indices prim \<Rightarrow>
               (case expected of
                  None \<Rightarrow> Inl KeyError
                | Some n \<Rightarrow>
                    Inr (filter (\<lambda>i. (int i \<notin> prim \<or> int i \<notin> sec) \<and> job_name a sample i \<notin> running)
                           (range n)))))"

text \<open>The same for the loop over the samples: the jobs reported, as pairs of sample
  and index, up to the first sample that raises, and the error raised there
  (\<open>check_samples_outcome\<close> below).\<close>

fun samples_outcome ::
  "args \<Rightarrow> (string \<Rightarrow> listing) \<Rightarrow> (string \<Rightarrow> listing) \<Rightarrow> (string \<rightharpoonup> int) \<Rightarrow> string set \<Rightarrow>
     string list \<Rightarrow> (string \<times> nat) list \<times> py_error option" where
  "samples_outcome a secondary primary expected running [] = ([], None)"
| "samples_outcome a secondary primary expected running (sample # rest) =
     (case sample_outcome a (secondary sample) (primary sample) (expected sample) running sample of
        Inl err \<Rightarrow> ([], Some err)
      | Inr is \<Rightarrow>
          (case samples_outcome a secondary primary expected running rest of
             (ks, r) \<Rightarrow> (map (Pair sample) is @ ks, r)))"

text \<open>What a run reports: the error it raised, if any, the two lists, and the
  resubmissions.\<close>

definition raised :: "result \<Rightarrow> py_error option" where
  "raised r = (case r of Inl (err, st) \<Rightarrow> Some err | Inr st \<Rightarrow> None)"

definition reports :: "result \<Rightarrow> py_error option \<times> string list \<times> string list \<times> string list" where
  "reports r =
     (raised r, missing_files (final_state r), err_files (final_state r),
      submitted (final_state r))"

definition submit_cmds :: "args \<Rightarrow> string list \<Rightarrow> string list" where
  "submit_cmds a files = (if submit_missing a then map (\<lambda>f. ''condor_submit '' @ f) files else [])"

text \<open>The indices a sample contributes to the lists; none when its check raises.\<close>

definition sample_reported :: "args \<Rightarrow> env \<Rightarrow> (string \<rightharpoonup> int) \<Rightarrow> string list \<Rightarrow> string \<Rightarrow> nat list" where
  "sample_reported a e jd r s =
     (case sample_outcome a (listing_of (parquet e s)) (listing_of (pickles e s)) (jd s) (set r) s of
        Inl err \<Rightarrow> []
      | Inr is \<Rightarrow> is)"

subsection \<open>Example inputs\<close>

text \<open>A batch of the year 2018 with three samples in storage. Sample ttbar has three
  directives, all its parquet files and two of its pickles; sample qcd has two
  directives, no parquet directory, and its job 1 is running; sample wjets has a
  directive of another year only, and no output directory.\<close>

definition ex_args :: args where
  "ex_args = \<lparr>processor = ''skimmer'', tag = ''v1'', year = ''2018'',
               submit_missing = True, check_running = True\<rparr>"

definition ex_env :: env where
  "ex_env =
     \<lparr>samples = [''ttbar'', ''qcd'', ''wjets''],
      jdl_dir = [''2018_ttbar_0.jdl'', ''2018_ttbar_2.jdl'', ''2018_ttbar_1.jdl'',
                 ''2018_qcd_1.jdl'', ''2018_qcd_0.jdl'', ''2017_wjets_0.jdl'', ''logs''],
      parquet = (\<lambda>s. if s = ''ttbar''
                      then Some [''out_0.parquet'', ''out_1.parquet'', ''out_2.parquet'']
                      else None),
      pickles = (\<lambda>s. if s = ''ttbar'' then Some [''out_0.pkl'', ''out_1.pkl''] else None),
      condor_q = [''2018_qcd_1.sh'' @ [CHR 0x0A], ''JOB_IDS'' @ [CHR 0x0A]]\<rparr>"

definition ex_counts :: "string \<rightharpoonup> int" where
  "ex_counts = [''ttbar'' \<mapsto> 3, ''qcd'' \<mapsto> 2]"

definition ex_running :: "string list" where
  "ex_running = [''2018_qcd_1'']"

text \<open>A sample in storage with both output directories and one output of each kind,
  and no directive at all.\<close>

definition unsized_env :: env where
  "unsized_env =
     \<lparr>samples = [''wjets''],
      jdl_dir = [],
      parquet = (\<lambda>s. if s = ''wjets'' then Some [''out_0.parquet''] else None),
      pickles = (\<lambda>s. if s = ''wjets'' then Some [''out_0.pkl''] else None),
      condor_q = []\<rparr>"

text \<open>A sample with two directives and both parquet files, and no pickles directory.\<close>

definition no_pickles_env :: env where
  "no_pickles_env =
     \<lparr>samples = [''qcd''],
      jdl_dir = [''2018_qcd_0.jdl'', ''2018_qcd_1.jdl''],
      parquet = (\<lambda>s. if s = ''qcd'' then Some [''out_0.parquet'', ''out_1.parquet''] else None),
      pickles = (\<lambda>s. None),
      condor_q = []\<rparr>"

text \<open>The same command line for the processor that writes pickles only.\<close>

definition trigger_args :: args where
  "trigger_args = ex_args\<lparr>processor := ''trigger''\<rparr>"

text \<open>The output directories of ttbar listed in another order and with repeated names.\<close>

definition dup_pickles :: "string \<Rightarrow> string list option" where
  "dup_pickles s = (if s = ''ttbar'' then Some [''out_1.pkl'', ''out_0.pkl'', ''out_0.pkl''] else None)"

definition dup_parquet :: "string \<Rightarrow> string list option" where
  "dup_parquet s =
     (if s = ''ttbar''
      then Some [''out_0.parquet'', ''out_0.parquet'', ''out_2.parquet'', ''out_1.parquet'']
      else None)"

definition dup_env :: env where
  "dup_env = ex_env\<lparr>parquet := dup_parquet, pickles := dup_pickles\<rparr>"

section \<open>Auxiliary facts\<close>

subsection \<open>Strings and paths\<close>

lemma split_on_not_Nil: "split_on c s \<noteq> []"
  by (induction s) (auto split: list.splits)

lemma str_nat_not_Nil: "str_nat n \<noteq> []"
  by (subst str_nat.simps) simp

lemma digit_char_inj: "d < 10 \<Longrightarrow> d' < 10 \<Longrightarrow> digit_char d = digit_char d' \<Longrightarrow> d = d'"
  unfolding digit_char_def
proof -
  assume a: "d < 10" "d' < 10" "char_of (48 + d) = (char_of (48 + d') :: char)"
  have "of_char (char_of (48 + d) :: char) = (of_char (char_of (48 + d') :: char) :: nat)"
    using a(3) by simp
  then have "(48 + d) mod 256 = (48 + d') mod 256"
    by (simp only: of_char_of)
  with a(1,2) show "d = d'" by simp
qed

text \<open>Two indices with the same decimal form are the same index.\<close>

lemma str_nat_inj: "str_nat n = str_nat m \<Longrightarrow> n = m"
proof (induction n arbitrary: m rule: str_nat.induct)
  case (1 n)
  show ?case
  proof (cases "n < 10")
    case True
    note n = this
    show ?thesis
    proof (cases "m < 10")
      case True
      with n "1.prems" show ?thesis
        by (simp add: str_nat.simps [of n] str_nat.simps [of m] digit_char_inj)
    next
      case False
      with n "1.prems" str_nat_not_Nil [of "m div 10"] show ?thesis
        by (simp add: str_nat.simps [of n] str_nat.simps [of m])
    qed
  next
    case False
    note n = this
    show ?thesis
    proof (cases "m < 10")
      case True
      with n "1.prems" str_nat_not_Nil [of "n div 10"] show ?thesis
        by (simp add: str_nat.simps [of n] str_nat.simps [of m])
    next
      case False
      with n "1.prems" have eq: "str_nat (n div 10) = str_nat (m div 10)"
        and d: "digit_char (n mod 10) = digit_char (m mod 10)"
        by (simp_all add: str_nat.simps [of n] str_nat.simps [of m])
      from "1.IH" [OF n eq] have "n div 10 = m div 10" .
      moreover from d have "n mod 10 = m mod 10"
        by (rule digit_char_inj [rotated 2]) simp_all
      ultimately show ?thesis
        by (metis div_mult_mod_eq)
    qed
  qed
qed

lemma job_name_inj: "job_name a s i = job_name a s j \<Longrightarrow> i = j"
  by (simp add: job_name_def str_nat_inj)

lemma jdl_file_inj: "jdl_file a s i = jdl_file a s j \<Longrightarrow> i = j"
  by (simp add: jdl_file_def job_name_inj)

lemma jdl_file_job_name: "jdl_file a s i = jdl_file a s' j \<Longrightarrow> job_name a s i = job_name a s' j"
  by (simp add: jdl_file_def)

lemma err_file_job_name: "err_file a s i = err_file a s' j \<Longrightarrow> job_name a s i = job_name a s' j"
  by (simp add: err_file_def)

subsection \<open>The state after the loops\<close>

lemma report_fields:
  "missing_files (report a s i st) = missing_files st @ [jdl_file a s i]"
  "err_files (report a s i st) = err_files st @ [err_file a s i]"
  "submitted (report a s i st) = submitted st @ submit_cmds a [jdl_file a s i]"
  "stdout (report a s i st) = stdout st"
  by (simp_all add: report_def os_system_def submit_cmds_def Let_def)

lemma print_fields:
  "missing_files (print m st) = missing_files st"
  "err_files (print m st) = err_files st"
  "submitted (print m st) = submitted st"
  "stdout (print m st) = stdout st @ [Plain m]"
  "missing_files (print_red m st) = missing_files st"
  "err_files (print_red m st) = err_files st"
  "submitted (print_red m st) = submitted st"
  "stdout (print_red m st) = stdout st @ [Red m]"
  by (simp_all add: print_def print_red_def)

lemma submit_cmds_append: "submit_cmds a (xs @ ys) = submit_cmds a xs @ submit_cmds a ys"
  by (simp add: submit_cmds_def)

lemma submit_cmds_Nil: "submit_cmds a [] = []"
  by (simp add: submit_cmds_def)

lemma absent_loop_fields:
  "missing_files (absent_loop a r s is st) =
     missing_files st @ map (jdl_file a s) (filter (\<lambda>i. job_name a s i \<notin> set r) is)"
  "err_files (absent_loop a r s is st) =
     err_files st @ map (err_file a s) (filter (\<lambda>i. job_name a s i \<notin> set r) is)"
  "submitted (absent_loop a r s is st) =
     submitted st @ submit_cmds a (map (jdl_file a s) (filter (\<lambda>i. job_name a s i \<notin> set r) is))"
  by (induction "is" arbitrary: st;
      simp add: report_fields print_fields submit_cmds_append [symmetric] submit_cmds_Nil)+

lemma absent_loop_stdout:
  "stdout (absent_loop a r s is st) =
     stdout st @ map (\<lambda>i. Plain (if job_name a s i \<in> set r then running_msg s i else jdl_file a s i)) is"
  by (induction "is" arbitrary: st) (simp_all add: report_fields print_fields)

lemma index_loop_fields:
  "missing_files (index_loop a r s pk pq is st) =
     missing_files st @ map (jdl_file a s)
       (filter (\<lambda>i. (int i \<notin> set pk \<or> (processor a \<noteq> ''trigger'' \<and> int i \<notin> set pq)) \<and> job_name a s i \<notin> set r) is)"
  "err_files (index_loop a r s pk pq is st) =
     err_files st @ map (err_file a s)
       (filter (\<lambda>i. (int i \<notin> set pk \<or> (processor a \<noteq> ''trigger'' \<and> int i \<notin> set pq)) \<and> job_name a s i \<notin> set r) is)"
  "submitted (index_loop a r s pk pq is st) =
     submitted st @ submit_cmds a (map (jdl_file a s)
       (filter (\<lambda>i. (int i \<notin> set pk \<or> (processor a \<noteq> ''trigger'' \<and> int i \<notin> set pq)) \<and> job_name a s i \<notin> set r) is))"
  by (induction "is" arbitrary: st;
      simp add: report_fields print_fields Let_def submit_cmds_append [symmetric] submit_cmds_Nil)+


subsection \<open>One sample, and all of them\<close>

lemma int_each_Inl: "int_each ts = Inl err \<Longrightarrow> err = ValueError"
  by (induction ts) (auto split: option.splits sum.splits)

lemma outs_of_Inl: "outs_of names = Inl err \<Longrightarrow> err = ValueError"
  by (simp add: outs_of_def int_each_Inl)

lemma check_sample_raises:
  assumes "sample_outcome a (listing_of (parquet e s)) (listing_of (pickles e s)) (jd s) (set r) s = Inl err"
  shows "\<exists>st'. check_sample a e jd r s st = Inl (err, st') \<and>
           missing_files st' = missing_files st \<and> err_files st' = err_files st \<and>
           submitted st' = submitted st"
  using assms
  by (auto simp: sample_outcome_def listing_of_def check_sample_def check_pickles_def Let_def
        print_fields
      dest: outs_of_Inl
      split: if_splits option.splits sum.splits listing.splits)

lemma check_sample_returns:
  assumes "sample_outcome a (listing_of (parquet e s)) (listing_of (pickles e s)) (jd s) (set r) s = Inr is"
  shows "\<exists>st'. check_sample a e jd r s st = Inr st' \<and>
           missing_files st' = missing_files st @ map (jdl_file a s) is \<and>
           err_files st' = err_files st @ map (err_file a s) is \<and>
           submitted st' = submitted st @ submit_cmds a (map (jdl_file a s) is)"
  using assms
  by (auto simp: sample_outcome_def listing_of_def check_sample_def check_pickles_def Let_def
        print_fields absent_loop_fields index_loop_fields submit_cmds_Nil
      split: if_splits option.splits sum.splits listing.splits)


lemma check_samples_outcome:
  assumes "samples_outcome a (\<lambda>s. listing_of (parquet e s)) (\<lambda>s. listing_of (pickles e s)) jd (set r) ss = (ks, err)"
  shows "raised (check_samples a e jd r ss st) = err \<and>
         missing_files (final_state (check_samples a e jd r ss st)) =
           missing_files st @ map (\<lambda>(s, i). jdl_file a s i) ks \<and>
         err_files (final_state (check_samples a e jd r ss st)) =
           err_files st @ map (\<lambda>(s, i). err_file a s i) ks \<and>
         submitted (final_state (check_samples a e jd r ss st)) =
           submitted st @ submit_cmds a (map (\<lambda>(s, i). jdl_file a s i) ks)"
  using assms
proof (induction ss arbitrary: st ks err)
  case Nil
  then show ?case by (simp add: raised_def submit_cmds_Nil)
next
  case (Cons s ss)
  let ?oc = "sample_outcome a (listing_of (parquet e s)) (listing_of (pickles e s)) (jd s) (set r) s"
  show ?case
  proof (cases ?oc)
    case (Inl x)
    from check_sample_raises [where jd = jd and st = st, OF Inl] Cons.prems Inl show ?thesis
      by (auto simp: raised_def submit_cmds_Nil)
  next
    case (Inr "is")
    from check_sample_returns [where jd = jd and st = st, OF Inr] obtain st' where
      st': "check_sample a e jd r s st = Inr st'"
        "missing_files st' = missing_files st @ map (jdl_file a s) is"
        "err_files st' = err_files st @ map (err_file a s) is"
        "submitted st' = submitted st @ submit_cmds a (map (jdl_file a s) is)"
      by blast
    obtain ks' err' where rest:
      "samples_outcome a (\<lambda>s. listing_of (parquet e s)) (\<lambda>s. listing_of (pickles e s)) jd (set r) ss = (ks', err')"
      by (cases "samples_outcome a (\<lambda>s. listing_of (parquet e s)) (\<lambda>s. listing_of (pickles e s)) jd (set r) ss")
    with Cons.prems Inr have ks: "ks = map (Pair s) is @ ks'" and err: "err = err'"
      by simp_all
    from Cons.IH [OF rest, of st'] st' show ?thesis
      by (simp add: ks err comp_def submit_cmds_append)
  qed
qed

lemma range_set: "i \<in> set (range n) \<longleftrightarrow> i < nat n"
  by (simp add: range_def)

lemma range_props: "distinct (range n)" "sorted_wrt (<) (range n)" "length (range n) = nat n"
  by (simp_all add: range_def sorted_wrt_upt del: upt_Suc)

lemma jdl_file_distinct: "distinct is \<Longrightarrow> distinct (map (jdl_file a s) is)"
  by (simp add: distinct_map inj_on_def) (blast dest: jdl_file_inj)

lemma jdl_file_mem: "jdl_file a s i \<in> set (map (jdl_file a s) is) \<longleftrightarrow> i \<in> set is"
  by (auto dest: jdl_file_inj)

text \<open>When the sample is not passed over and has an expected count, the indices reported
  are those that are neither complete nor running.\<close>

lemma sample_outcome_reported:
  assumes "sample_outcome a (listing_of (parquet e s)) (listing_of (pickles e s)) (Some n) (set r) s = Inr is"
    and "\<not> skipped a e s"
  shows "is = filter (\<lambda>i. \<not> complete a e s i \<and> \<not> is_running a r s i) (range n)"
  using assms
  by (auto simp: sample_outcome_def skipped_def complete_def produced_def is_running_def
        listing_of_def
      split: if_splits option.splits sum.splits listing.splits
      intro!: filter_cong)

lemma check_sample_Inr_outcome:
  assumes "check_sample a e jd r s st = Inr st'"
  shows "\<exists>is. sample_outcome a (listing_of (parquet e s)) (listing_of (pickles e s)) (jd s) (set r) s = Inr is \<and>
           missing_files st' = missing_files st @ map (jdl_file a s) is \<and>
           err_files st' = err_files st @ map (err_file a s) is \<and>
           submitted st' = submitted st @ submit_cmds a (map (jdl_file a s) is)"
proof (cases "sample_outcome a (listing_of (parquet e s)) (listing_of (pickles e s)) (jd s) (set r) s")
  case (Inl err)
  from check_sample_raises [where jd = jd and st = st, OF Inl] assms show ?thesis by auto
next
  case (Inr "is")
  from check_sample_returns [where jd = jd and st = st, OF Inr] assms show ?thesis
    using Inr by auto
qed

lemma sample_outcome_not_running:
  assumes "sample_outcome a sec prim cnt running s = Inr is" and "i \<in> set is"
  shows "job_name a s i \<notin> running"
  using assms
  by (auto simp: sample_outcome_def split: if_splits option.splits listing.splits)

lemma samples_outcome_not_running:
  assumes "samples_outcome a sec prim jd running ss = (ks, err)" and "(s, i) \<in> set ks"
  shows "job_name a s i \<notin> running"
  using assms
proof (induction ss arbitrary: ks err)
  case Nil
  then show ?case by simp
next
  case (Cons t ss)
  show ?case
  proof (cases "sample_outcome a (sec t) (prim t) (jd t) running t")
    case (Inl x)
    with Cons.prems show ?thesis by simp
  next
    case (Inr "is")
    obtain ks' err' where rest: "samples_outcome a sec prim jd running ss = (ks', err')"
      by (cases "samples_outcome a sec prim jd running ss")
    with Cons.prems Inr have "(s, i) \<in> Pair t ` set is \<or> (s, i) \<in> set ks'"
      by auto
    then show ?thesis
    proof
      assume "(s, i) \<in> Pair t ` set is"
      then have "s = t" "i \<in> set is" by auto
      with sample_outcome_not_running [OF Inr] show ?thesis by simp
    next
      assume "(s, i) \<in> set ks'"
      with Cons.IH [OF rest] show ?thesis .
    qed
  qed
qed

lemma filter_all_length: "(\<forall>x \<in> set xs. P x) \<Longrightarrow> length (filter P xs) = length xs"
  by (induction xs) simp_all

lemma trigger_check_sample:
  "processor a = ''trigger'' \<Longrightarrow>
     check_sample a (e\<lparr>parquet := p\<rparr>) jd r s st = check_sample a e jd r s st"
  by (simp add: check_sample_def check_pickles_def Let_def)

lemma trigger_check_samples:
  "processor a = ''trigger'' \<Longrightarrow>
     check_samples a (e\<lparr>parquet := p\<rparr>) jd r ss st = check_samples a e jd r ss st"
  by (induction ss arbitrary: st) (simp_all add: trigger_check_sample split: sum.splits)

lemma trigger_sample_outcome:
  "processor a = ''trigger'' \<Longrightarrow>
     sample_outcome a sec prim cnt running s = sample_outcome a Absent prim cnt running s"
  by (simp add: sample_outcome_def)

lemma trigger_samples_outcome:
  "processor a = ''trigger'' \<Longrightarrow>
     samples_outcome a sec prim jd running ss = samples_outcome a (\<lambda>s. Absent) prim jd running ss"
  by (induction ss) (simp_all add: trigger_sample_outcome [of a "sec _"] split: sum.splits)

subsection \<open>Expected counts, listings and reports\<close>

lemma sorted_le_last: "sorted xs \<Longrightarrow> y \<in> set xs \<Longrightarrow> y \<le> last (xs :: int list)"
  by (induction xs) (auto dest: last_in_set)

lemma last_sort_Max: "x \<noteq> [] \<Longrightarrow> last (sort x) = Max (set (x :: int list))"
proof -
  assume ne: "x \<noteq> []"
  then have ne': "sort x \<noteq> []" by (metis length_sort length_0_conv)
  have "Max (set x) = last (sort x)"
  proof (rule Max_eqI)
    show "finite (set x)" by simp
    show "y \<le> last (sort x)" if "y \<in> set x" for y
      using sorted_le_last [of "sort x" y] that by simp
    from last_in_set [OF ne'] show "last (sort x) \<in> set x" by simp
  qed
  then show ?thesis by simp
qed

lemma int_each_Inr: "int_each ts = Inr ks \<Longrightarrow> ks = map (the \<circ> py_int) ts \<and> (\<forall>t \<in> set ts. py_int t \<noteq> None)"
  by (induction ts arbitrary: ks) (auto split: option.splits sum.splits)

lemma int_each_cases:
  "int_each ts = (if \<exists>t \<in> set ts. py_int t = None then Inl ValueError else Inr (map (the \<circ> py_int) ts))"
  by (induction ts) (auto split: option.splits sum.splits)

lemma build_jdl_dict_entries:
  assumes "build_jdl_dict yr jdls ss d0 = Inr d"
  shows "(s \<in> set ss \<longrightarrow>
            (\<exists>x. jdl_indices yr jdls s = Inr x \<and>
                 d s = (if x = [] then d0 s else Some (sort_last_plus1 x)))) \<and>
         (s \<notin> set ss \<longrightarrow> d s = d0 s)"
  using assms
proof (induction ss arbitrary: d0)
  case Nil
  then show ?case by simp
next
  case (Cons t ss)
  from Cons.prems obtain x where x: "jdl_indices yr jdls t = Inr x"
    and rest: "build_jdl_dict yr jdls ss (if length x > 0 then d0(t \<mapsto> sort_last_plus1 x) else d0) = Inr d"
    by (auto split: sum.splits)
  from Cons.IH [OF rest] x show ?case
    by (cases "s \<in> set ss") (auto split: if_splits)
qed

lemma fold_print_fields:
  "missing_files (fold print xs st) = missing_files st"
  "err_files (fold print xs st) = err_files st"
  "submitted (fold print xs st) = submitted st"
  by (induction xs arbitrary: st; simp add: print_fields)+

lemma final_report_fields:
  "missing_files (final_report st) = missing_files st"
  "err_files (final_report st) = err_files st"
  "submitted (final_report st) = submitted st"
  by (simp_all add: final_report_def Let_def fold_print_fields print_fields)

lemma reports_run:
  "reports (run a e) =
     (case build_jdl_dict (year a) (jdls_of e) (samples e) Map.empty of
        Inl err \<Rightarrow> (Some err, [], [], [])
      | Inr jd \<Rightarrow> reports (check_samples a e jd (running_jobs_of a e) (samples e) init_state))"
  by (auto simp: run_def reports_def raised_def final_report_fields init_state_def
      split: sum.splits)

lemma reports_check_samples:
  "reports (check_samples a e jd r ss st) =
     (case samples_outcome a (\<lambda>s. listing_of (parquet e s)) (\<lambda>s. listing_of (pickles e s)) jd (set r) ss of
        (ks, err) \<Rightarrow>
          (err, missing_files st @ map (\<lambda>(s, i). jdl_file a s i) ks,
           err_files st @ map (\<lambda>(s, i). err_file a s i) ks,
           submitted st @ submit_cmds a (map (\<lambda>(s, i). jdl_file a s i) ks)))"
proof -
  obtain ks err where rec:
    "samples_outcome a (\<lambda>s. listing_of (parquet e s)) (\<lambda>s. listing_of (pickles e s)) jd (set r) ss = (ks, err)"
    by (cases "samples_outcome a (\<lambda>s. listing_of (parquet e s)) (\<lambda>s. listing_of (pickles e s)) jd (set r) ss")
  from check_samples_outcome [OF rec, of st] rec show ?thesis
    by (simp add: reports_def)
qed

lemma reports_check_samples_cong:
  assumes "\<forall>s. listing_of (pickles e1 s) = listing_of (pickles e2 s)"
    and "\<forall>s. listing_of (parquet e1 s) = listing_of (parquet e2 s)"
    and "set r1 = set r2"
  shows "reports (check_samples a e1 jd r1 ss st) = reports (check_samples a e2 jd r2 ss st)"
  using assms by (simp add: reports_check_samples)

lemma listing_of_Some:
  "listing_of (Some names) =
     (if \<exists>t \<in> set names. py_int (out_index_token t) = None then Unreadable
      else Indices ((the \<circ> py_int \<circ> out_index_token) ` set names))"
  by (auto simp: listing_of_def outs_of_def int_each_cases)

lemma listing_of_set:
  assumes "map_option set d1 = map_option set d2"
  shows "listing_of d1 = listing_of d2"
proof (cases d1)
  case None
  with assms show ?thesis by simp
next
  case (Some l1)
  with assms obtain l2 where "d2 = Some l2" "set l1 = set l2" by (cases d2) auto
  with Some show ?thesis by (simp only: listing_of_Some)
qed

lemma sample_outcome_sorted:
  "sample_outcome a sec prim cnt running s = Inr is \<Longrightarrow> sorted_wrt (<) is"
  by (auto simp: sample_outcome_def range_props sorted_wrt_filter
      split: if_splits option.splits listing.splits)

lemma samples_outcome_concat:
  assumes "samples_outcome a sec prim jd running ss = (ks, err)"
  shows "\<exists>m \<le> length ss. (err = None \<longrightarrow> m = length ss) \<and>
           ks = concat (map (\<lambda>s. map (Pair s)
                  (case sample_outcome a (sec s) (prim s) (jd s) running s of
                     Inl e \<Rightarrow> [] | Inr is \<Rightarrow> is)) (take m ss))"
  using assms
proof (induction ss arbitrary: ks err)
  case Nil
  then show ?case by simp
next
  case (Cons t ss)
  show ?case
  proof (cases "sample_outcome a (sec t) (prim t) (jd t) running t")
    case (Inl x)
    with Cons.prems have "ks = []" "err = Some x" by simp_all
    then show ?thesis by (intro exI [of _ 0]) simp
  next
    case (Inr "is")
    obtain ks' err' where rest: "samples_outcome a sec prim jd running ss = (ks', err')"
      by (cases "samples_outcome a sec prim jd running ss")
    with Cons.prems Inr have ks: "ks = map (Pair t) is @ ks'" and err: "err = err'"
      by simp_all
    from Cons.IH [OF rest] obtain m where m: "m \<le> length ss" "err' = None \<longrightarrow> m = length ss"
      "ks' = concat (map (\<lambda>s. map (Pair s)
                  (case sample_outcome a (sec s) (prim s) (jd s) running s of
                     Inl e \<Rightarrow> [] | Inr is \<Rightarrow> is)) (take m ss))"
      by blast
    with ks err Inr show ?thesis by (intro exI [of _ "Suc m"]) simp
  qed
qed

subsection \<open>The 64-bit sum\<close>

lemma int64_no_wrap: "- (2 ^ 63) \<le> k \<Longrightarrow> k < 2 ^ 63 - 1 \<Longrightarrow> int64 (k + 1) = k + 1"
  by (simp add: int64_def)

lemma int64_wrap: "int64 (2 ^ 63 - 1 + 1) = - (2 ^ 63)"
  by (simp add: int64_def)

lemma sort_last_plus1_fits:
  assumes "x \<noteq> []" and "\<forall>k \<in> set x. fits_int64 k"
  shows "sort_last_plus1 x =
           (if Max (set x) = 2 ^ 63 - 1 then - (2 ^ 63) else Max (set x) + 1)"
proof -
  from assms(1) have "Max (set x) \<in> set x" by simp
  with assms(2) have m: "- (2 ^ 63) \<le> Max (set x)" "Max (set x) < 2 ^ 63"
    by (auto simp: fits_int64_def)
  show ?thesis
  proof (cases "Max (set x) = 2 ^ 63 - 1")
    case True
    with assms(1) show ?thesis
      by (simp add: sort_last_plus1_def last_sort_Max int64_def)
  next
    case False
    with m have "Max (set x) < 2 ^ 63 - 1" by simp
    with m(1) assms(1) False show ?thesis
      by (simp add: sort_last_plus1_def last_sort_Max int64_no_wrap)
  qed
qed

text \<open>The directive with the largest index that fits, step by step.\<close>

lemma max_index_token:
  "filter (jdl_matches ''2018'' ''t'') [''2018_t_9223372036854775807.jdl''] =
     [''2018_t_9223372036854775807.jdl'']"
  "jdl_index_token ''2018_t_9223372036854775807.jdl'' = ''9223372036854775807''"
  by code_simp+

lemma max_index_split: "split_on CHR ''_'' ''9223372036854775807'' = [''9223372036854775807'']"
  by code_simp

lemma max_index_digits:
  "list_all (\<lambda>g. g \<noteq> [] \<and> list_all is_digit g) [''9223372036854775807'']"
  "strip ''9223372036854775807'' = ''9223372036854775807''"
  by code_simp+

lemma max_index_value: "digits_value ''9223372036854775807'' = 9223372036854775807"
  by (simp add: digits_value_def)

lemma max_index_int: "py_int ''9223372036854775807'' = Some 9223372036854775807"
  by (simp only: py_int_def parse_digits_def max_index_split max_index_digits max_index_value
        Let_def if_True list.case concat.simps append_Nil2 char.inject option.map)
    simp

section \<open>The properties\<close>

subsection \<open>Samples without an expected count\<close>

text \<open>
  Claim C1. A sample that is in storage but has no entry in the expected counts is to be
  passed over without a report and without failing, whatever output directories it has.
  The guard of lines 105 to 106 does so when the parquet directory is absent; line 139
  has no such guard. A sample with both output directories and no directive makes
  \<^verbatim>\<open>jdl_dict[sample]\<close> raise KeyError, and the run ends there, before anything is
  reported.
\<close>

theorem unsized_sample_raises_KeyError:
  "run ex_args unsized_env =
     Inl (KeyError,
          \<lparr>missing_files = [], err_files = [],
           stdout = [Plain ''Checking wjets'', Plain ''Out parquets: [0]''],
           submitted = []\<rparr>)"
  by code_simp

subsection \<open>A sample without a pickles directory\<close>

text \<open>
  The claim as stated, C2, says that a sample whose pickles directory is absent while its
  parquet directory exists is checked against an empty set of pickles, so that each of its
  jobs that is not running is reported. The guard of lines 128 to 130 prints a warning and
  goes on to the next sample instead: with two directives, both parquet files, no
  pickles directory and nothing running, the run ends without a single report.
\<close>

theorem no_pickles_counterexample:
  "map_sum id (\<lambda>d. d ''qcd'')
     (build_jdl_dict (year ex_args) (jdls_of no_pickles_env) (samples no_pickles_env) Map.empty) =
     Inr (Some 2) \<and>
   running_jobs_of ex_args no_pickles_env = [] \<and>
   pickles no_pickles_env ''qcd'' = None \<and>
   parquet no_pickles_env ''qcd'' = Some [''out_0.parquet'', ''out_1.parquet''] \<and>
   raised (run ex_args no_pickles_env) = None \<and>
   missing_files (final_state (run ex_args no_pickles_env)) = [] \<and>
   err_files (final_state (run ex_args no_pickles_env)) = []"
  by code_simp

text \<open>
  Claim C2, as amended. For a sample whose pickles directory does not exist, while the
  parquet directory exists and every name in it yields an index (or the processor is
  \<^verbatim>\<open>trigger\<close>), the check prints the warning ``No pickles directory'' and passes on:
  it reports and resubmits nothing for that sample, whatever the expected counts and the
  running jobs are.
\<close>

theorem pickles_absent_skips:
  assumes "pickles e s = None"
    and "processor a = ''trigger'' \<or> (\<exists>names xs. parquet e s = Some names \<and> outs_of names = Inr xs)"
  shows "\<exists>st'. check_sample a e jd r s st = Inr st' \<and>
           missing_files st' = missing_files st \<and> err_files st' = err_files st \<and>
           submitted st' = submitted st \<and>
           last (stdout st') = Red (''No pickles directory for '' @ s @ ''!'')"
  using assms
  by (auto simp: check_sample_def check_pickles_def Let_def print_fields)

theorem pickles_absent_skips_witness:
  "pickles no_pickles_env ''qcd'' = None \<and>
   parquet no_pickles_env ''qcd'' = Some [''out_0.parquet'', ''out_1.parquet''] \<and>
   outs_of [''out_0.parquet'', ''out_1.parquet''] = Inr [0, 1] \<and>
   ex_counts ''qcd'' = Some 2 \<and>
   (\<exists>st'. check_sample ex_args no_pickles_env ex_counts [] ''qcd'' init_state = Inr st' \<and>
          missing_files st' = missing_files init_state \<and> err_files st' = err_files init_state \<and>
          submitted st' = submitted init_state \<and>
          last (stdout st') = Red (''No pickles directory for '' @ ''qcd'' @ ''!''))"
proof -
  have h1: "pickles no_pickles_env ''qcd'' = None" by code_simp
  have h2: "parquet no_pickles_env ''qcd'' = Some [''out_0.parquet'', ''out_1.parquet'']" by code_simp
  have h3: "outs_of [''out_0.parquet'', ''out_1.parquet''] = Inr [0, 1]" by code_simp
  have h4: "ex_counts ''qcd'' = Some 2" by code_simp
  have h5: "processor ex_args = ''trigger'' \<or>
      (\<exists>names xs. parquet no_pickles_env ''qcd'' = Some names \<and> outs_of names = Inr xs)"
    using h2 h3 by blast
  from pickles_absent_skips [OF h1 h5] h1 h2 h3 h4 show ?thesis by blast
qed

subsection \<open>Every expected job is accounted for\<close>

text \<open>
  The claim as stated, C3, says that for every sample with an expected count each index
  below the count is complete, running or reported. The only sample it sets aside is
  the one without an expected count. The guard of lines 128 to 130 passes over a sample
  without a pickles directory as well: sample qcd has the expected count 2, its index 0
  is not complete and not running, and yet nothing is reported for it.
\<close>

theorem skipped_sample_drops_index:
  "ex_counts ''qcd'' = Some 2 \<and> (0::nat) < nat 2 \<and>
   pickles no_pickles_env ''qcd'' = None \<and>
   parquet no_pickles_env ''qcd'' = Some [''out_0.parquet'', ''out_1.parquet''] \<and>
   raised (check_sample ex_args no_pickles_env ex_counts [] ''qcd'' init_state) = None \<and>
   \<not> complete ex_args no_pickles_env ''qcd'' 0 \<and>
   \<not> is_running ex_args [] ''qcd'' 0 \<and>
   jdl_file ex_args ''qcd'' 0 \<notin>
     set (missing_files (final_state
            (check_sample ex_args no_pickles_env ex_counts [] ''qcd'' init_state))) \<and>
   missing_files (final_state (run ex_args no_pickles_env)) = []"
  by code_simp

text \<open>
  Claim C3, as amended. Take a sample with an expected count \<open>n\<close> whose check returns and
  which is not passed over by the guard on the pickles directory: its pickles directory
  exists, or the processor is not \<^verbatim>\<open>trigger\<close> and its parquet directory is absent. Then
  every index below \<open>n\<close> is in exactly one of three classes: complete (its pickle is there
  and, unless the processor is \<^verbatim>\<open>trigger\<close>, its parquet file too), running while some
  required output is missing, or reported by this check of the sample.
\<close>

theorem every_index_accounted:
  assumes ok: "check_sample a e jd r s st = Inr st'"
    and n: "jd s = Some n"
    and ns: "\<not> skipped a e s"
    and i: "i < nat n"
  shows "(let done = complete a e s i;
              running = (is_running a r s i \<and> \<not> complete a e s i);
              reported = (jdl_file a s i \<in> set (drop (length (missing_files st)) (missing_files st')))
          in (done \<and> \<not> running \<and> \<not> reported) \<or>
             (\<not> done \<and> running \<and> \<not> reported) \<or>
             (\<not> done \<and> \<not> running \<and> reported))"
proof -
  from check_sample_Inr_outcome [OF ok] n obtain "is" where
    oc: "sample_outcome a (listing_of (parquet e s)) (listing_of (pickles e s)) (Some n) (set r) s = Inr is"
    and mf: "missing_files st' = missing_files st @ map (jdl_file a s) is"
    by auto
  from sample_outcome_reported [OF oc ns]
  have "is = filter (\<lambda>i. \<not> complete a e s i \<and> \<not> is_running a r s i) (range n)" .
  with i have "i \<in> set is \<longleftrightarrow> \<not> complete a e s i \<and> \<not> is_running a r s i"
    by (simp add: range_set)
  moreover from mf have "drop (length (missing_files st)) (missing_files st') = map (jdl_file a s) is"
    by simp
  ultimately show ?thesis
    by (auto simp: Let_def jdl_file_mem simp del: set_map)
qed

theorem every_index_accounted_witness:
  "check_sample ex_args ex_env ex_counts ex_running ''ttbar'' init_state =
     Inr (final_state (check_sample ex_args ex_env ex_counts ex_running ''ttbar'' init_state)) \<and>
   ex_counts ''ttbar'' = Some 3 \<and>
   \<not> skipped ex_args ex_env ''ttbar'' \<and>
   (2::nat) < nat 3 \<and>
   \<not> complete ex_args ex_env ''ttbar'' 2 \<and>
   \<not> is_running ex_args ex_running ''ttbar'' 2 \<and>
   jdl_file ex_args ''ttbar'' 2 \<in>
     set (drop (length (missing_files init_state))
            (missing_files (final_state
               (check_sample ex_args ex_env ex_counts ex_running ''ttbar'' init_state))))"
proof -
  have ok: "check_sample ex_args ex_env ex_counts ex_running ''ttbar'' init_state =
     Inr (final_state (check_sample ex_args ex_env ex_counts ex_running ''ttbar'' init_state))"
    by code_simp
  have n: "ex_counts ''ttbar'' = Some 3" by code_simp
  have ns: "\<not> skipped ex_args ex_env ''ttbar''" by code_simp
  have i: "(2::nat) < nat 3" by simp
  have c: "\<not> complete ex_args ex_env ''ttbar'' 2" by code_simp
  have r: "\<not> is_running ex_args ex_running ''ttbar'' 2" by code_simp
  from every_index_accounted [OF ok n ns i] c r ok n ns i show ?thesis
    by (simp add: Let_def)
qed

subsection \<open>Running jobs are not reported\<close>

text \<open>
  Claim C4. A job whose name \<^verbatim>\<open><year>_<sample>_<i>\<close> is among the running jobs is never
  reported: neither its directive nor its log enters the lists, and it is not
  resubmitted, whatever the output directories hold and whether they exist, and also
  when the run raises later on.
\<close>

theorem running_job_not_reported:
  assumes run: "job_name a s i \<in> set r"
  shows "jdl_file a s i \<notin> set (missing_files (final_state (check_samples a e jd r ss init_state))) \<and>
         err_file a s i \<notin> set (err_files (final_state (check_samples a e jd r ss init_state))) \<and>
         ''condor_submit '' @ jdl_file a s i \<notin>
           set (submitted (final_state (check_samples a e jd r ss init_state)))"
proof -
  obtain ks err where rec:
    "samples_outcome a (\<lambda>s. listing_of (parquet e s)) (\<lambda>s. listing_of (pickles e s)) jd (set r) ss = (ks, err)"
    by (cases "samples_outcome a (\<lambda>s. listing_of (parquet e s)) (\<lambda>s. listing_of (pickles e s)) jd (set r) ss")
  note fin = check_samples_outcome [OF rec, of init_state]
  have nr: "job_name a t j \<notin> set r" if "(t, j) \<in> set ks" for t j
    using samples_outcome_not_running [OF rec that] .
  have 1: "jdl_file a s i \<notin> set (map (\<lambda>(s, i). jdl_file a s i) ks)"
  proof
    assume "jdl_file a s i \<in> set (map (\<lambda>(s, i). jdl_file a s i) ks)"
    then obtain t j where tj: "(t, j) \<in> set ks" "jdl_file a s i = jdl_file a t j" by auto
    from jdl_file_job_name [OF tj(2)] nr [OF tj(1)] run show False by simp
  qed
  have 2: "err_file a s i \<notin> set (map (\<lambda>(s, i). err_file a s i) ks)"
  proof
    assume "err_file a s i \<in> set (map (\<lambda>(s, i). err_file a s i) ks)"
    then obtain t j where tj: "(t, j) \<in> set ks" "err_file a s i = err_file a t j" by auto
    from err_file_job_name [OF tj(2)] nr [OF tj(1)] run show False by simp
  qed
  have 3: "''condor_submit '' @ jdl_file a s i \<notin>
     set (submit_cmds a (map (\<lambda>(s, i). jdl_file a s i) ks))"
    using 1 by (auto simp: submit_cmds_def)
  from fin 1 2 3 show ?thesis
    by (simp add: init_state_def)
qed

theorem running_job_not_reported_witness:
  "job_name ex_args ''qcd'' 1 \<in> set ex_running \<and>
   parquet ex_env ''qcd'' = None \<and> pickles ex_env ''qcd'' = None \<and>
   ex_counts ''qcd'' = Some 2 \<and>
   jdl_file ex_args ''qcd'' 1 \<notin>
     set (missing_files (final_state
       (check_samples ex_args ex_env ex_counts ex_running (samples ex_env) init_state))) \<and>
   err_file ex_args ''qcd'' 1 \<notin>
     set (err_files (final_state
       (check_samples ex_args ex_env ex_counts ex_running (samples ex_env) init_state))) \<and>
   missing_files (final_state
       (check_samples ex_args ex_env ex_counts ex_running (samples ex_env) init_state)) =
     [jdl_file ex_args ''ttbar'' 2, jdl_file ex_args ''qcd'' 0]"
proof -
  have h: "job_name ex_args ''qcd'' 1 \<in> set ex_running" by code_simp
  have d: "parquet ex_env ''qcd'' = None" "pickles ex_env ''qcd'' = None"
    "ex_counts ''qcd'' = Some 2"
    by code_simp+
  have m: "missing_files (final_state
       (check_samples ex_args ex_env ex_counts ex_running (samples ex_env) init_state)) =
     [jdl_file ex_args ''ttbar'' 2, jdl_file ex_args ''qcd'' 0]"
    by code_simp
  from running_job_not_reported [OF h, of ex_env ex_counts "samples ex_env"] h d m
  show ?thesis by simp
qed

subsection \<open>A sample without a parquet directory\<close>

text \<open>
  Claim C5. When the processor is not \<^verbatim>\<open>trigger\<close> and the parquet directory of a sample
  with expected count \<open>n\<close> is absent, the check reports exactly the indices below \<open>n\<close>
  that are not running, in ascending order and each once (all \<open>n\<close> of them when none is
  running). The report is marked by the warning ``No parquet directory'' printed before
  the directives, and nothing else is looked at: the pickles directory has no influence.
\<close>

theorem absent_parquet_reports_all:
  assumes np: "processor a \<noteq> ''trigger''"
    and ab: "parquet e s = None"
    and n: "jd s = Some n"
  shows "\<exists>st'. check_sample a e jd r s st = Inr st' \<and>
           missing_files st' =
             missing_files st @ map (jdl_file a s) (filter (\<lambda>i. job_name a s i \<notin> set r) (range n)) \<and>
           err_files st' =
             err_files st @ map (err_file a s) (filter (\<lambda>i. job_name a s i \<notin> set r) (range n)) \<and>
           distinct (map (jdl_file a s) (filter (\<lambda>i. job_name a s i \<notin> set r) (range n))) \<and>
           stdout st' =
             stdout st @ [Plain (''Checking '' @ s), Red (''No parquet directory for '' @ s @ ''!'')] @
             map (\<lambda>i. Plain (if job_name a s i \<in> set r then running_msg s i else jdl_file a s i))
               (range n) \<and>
           ((\<forall>i < nat n. job_name a s i \<notin> set r) \<longrightarrow>
              length (missing_files st') = length (missing_files st) + nat n) \<and>
           check_sample a (e\<lparr>pickles := p\<rparr>) jd r s st = Inr st'"
proof -
  let ?st' = "absent_loop a r s (range n)
     (print_red (''No parquet directory for '' @ s @ ''!'') (print (''Checking '' @ s) st))"
  have eq: "check_sample a e jd r s st = Inr ?st'"
    using np ab n by (simp add: check_sample_def Let_def)
  have eq': "check_sample a (e\<lparr>pickles := p\<rparr>) jd r s st = Inr ?st'"
    using np ab n by (simp add: check_sample_def Let_def)
  have d: "distinct (map (jdl_file a s) (filter (\<lambda>i. job_name a s i \<notin> set r) (range n)))"
    by (rule jdl_file_distinct) (simp add: range_props)
  have len: "length (missing_files ?st') = length (missing_files st) + nat n"
    if "\<forall>i < nat n. job_name a s i \<notin> set r"
  proof -
    from that have "\<forall>i \<in> set (range n). job_name a s i \<notin> set r"
      by (simp add: range_set)
    from filter_all_length [of "range n" "\<lambda>i. job_name a s i \<notin> set r", OF this]
    show ?thesis
      by (simp add: absent_loop_fields print_fields range_props)
  qed
  show ?thesis
    using eq eq' d len
    by (simp add: absent_loop_fields absent_loop_stdout print_fields)
qed

theorem absent_parquet_reports_all_witness:
  "processor ex_args \<noteq> ''trigger'' \<and> parquet ex_env ''qcd'' = None \<and>
   ex_counts ''qcd'' = Some 2 \<and>
   (\<exists>st'. check_sample ex_args ex_env ex_counts [] ''qcd'' init_state = Inr st' \<and>
      missing_files st' = [jdl_file ex_args ''qcd'' 0, jdl_file ex_args ''qcd'' 1] \<and>
      err_files st' = [err_file ex_args ''qcd'' 0, err_file ex_args ''qcd'' 1] \<and>
      stdout st' =
        [Plain ''Checking qcd'', Red ''No parquet directory for qcd!'',
         Plain (jdl_file ex_args ''qcd'' 0), Plain (jdl_file ex_args ''qcd'' 1)] \<and>
      length (missing_files st') = 2)"
proof -
  have np: "processor ex_args \<noteq> ''trigger''" by code_simp
  have ab: "parquet ex_env ''qcd'' = None" by code_simp
  have n: "ex_counts ''qcd'' = Some 2" by code_simp
  have f: "filter (\<lambda>i. job_name ex_args ''qcd'' i \<notin> set []) (range 2) = [0, 1]"
    by (simp add: range_def upt_rec)
  have g: "range 2 = [0, 1]" by (simp add: range_def upt_rec)
  from absent_parquet_reports_all
    [where jd = ex_counts and r = "[]" and st = init_state and p = "pickles ex_env", OF np ab n]
    np ab n
  show ?thesis
    by (auto simp: f g init_state_def)
qed

subsection \<open>The processor that writes no parquet files\<close>

text \<open>
  Claim C6. With the processor \<^verbatim>\<open>trigger\<close> the parquet directories are never consulted:
  replacing them by anything, present or absent, leaves the whole run as it is, and the
  reports are those computed from the pickles alone.
\<close>

theorem trigger_ignores_parquet:
  assumes tr: "processor a = ''trigger''"
  shows "run a (e\<lparr>parquet := p\<rparr>) = run a e \<and>
         check_samples a (e\<lparr>parquet := p\<rparr>) jd r ss st = check_samples a e jd r ss st \<and>
         missing_files (final_state (check_samples a e jd r ss st)) =
           missing_files st @ map (\<lambda>(s, i). jdl_file a s i)
             (fst (samples_outcome a (\<lambda>s. Absent) (\<lambda>s. listing_of (pickles e s)) jd (set r) ss))"
proof -
  have 1: "run a (e\<lparr>parquet := p\<rparr>) = run a e"
    by (simp add: run_def jdls_of_def running_jobs_of_def trigger_check_samples [OF tr]
        split: sum.splits)
  obtain ks err where rec:
    "samples_outcome a (\<lambda>s. listing_of (parquet e s)) (\<lambda>s. listing_of (pickles e s)) jd (set r) ss = (ks, err)"
    by (cases "samples_outcome a (\<lambda>s. listing_of (parquet e s)) (\<lambda>s. listing_of (pickles e s)) jd (set r) ss")
  with trigger_samples_outcome [OF tr, of "\<lambda>s. listing_of (parquet e s)"]
  have "fst (samples_outcome a (\<lambda>s. Absent) (\<lambda>s. listing_of (pickles e s)) jd (set r) ss) = ks"
    by simp
  with check_samples_outcome [OF rec, of st] 1 trigger_check_samples [OF tr]
  show ?thesis by simp
qed

theorem trigger_ignores_parquet_witness:
  "processor trigger_args = ''trigger'' \<and>
   run trigger_args (ex_env\<lparr>parquet := \<lambda>s. None\<rparr>) = run trigger_args ex_env \<and>
   missing_files (final_state (run trigger_args ex_env)) = [jdl_file trigger_args ''ttbar'' 2]"
proof -
  have tr: "processor trigger_args = ''trigger''" by code_simp
  have m: "missing_files (final_state (run trigger_args ex_env)) = [jdl_file trigger_args ''ttbar'' 2]"
    by code_simp
  from trigger_ignores_parquet [OF tr, of "\<lambda>s. None" ex_env] tr m show ?thesis by simp
qed

subsection \<open>The reports as a function of the inputs\<close>

text \<open>
  Claim C7. The reports are a function of the expected counts, the indices produced in
  the two kinds of directory, the set of running jobs and the command line: two checks
  that agree on these, whatever the listings and the list of running jobs look like
  otherwise, end with the same error, the same two lists and the same resubmissions.
  The list of directives follows the order of the samples as given, stopping at the
  sample where the check raises, if any, and within a sample the indices ascend.
\<close>

theorem reports_determined_and_ordered:
  assumes pk: "\<forall>s. listing_of (pickles e1 s) = listing_of (pickles e2 s)"
    and pq: "\<forall>s. listing_of (parquet e1 s) = listing_of (parquet e2 s)"
    and rs: "set r1 = set r2"
  shows "reports (check_samples a e1 jd r1 ss init_state) =
           reports (check_samples a e2 jd r2 ss init_state) \<and>
         (\<exists>m \<le> length ss.
            (raised (check_samples a e1 jd r1 ss init_state) = None \<longrightarrow> m = length ss) \<and>
            missing_files (final_state (check_samples a e1 jd r1 ss init_state)) =
              concat (map (\<lambda>s. map (jdl_file a s) (sample_reported a e1 jd r1 s)) (take m ss))) \<and>
         (\<forall>s. sorted_wrt (<) (sample_reported a e1 jd r1 s))"
proof -
  have 1: "reports (check_samples a e1 jd r1 ss init_state) =
           reports (check_samples a e2 jd r2 ss init_state)"
    by (rule reports_check_samples_cong [OF pk pq rs])
  obtain ks err where rec:
    "samples_outcome a (\<lambda>s. listing_of (parquet e1 s)) (\<lambda>s. listing_of (pickles e1 s)) jd (set r1) ss = (ks, err)"
    by (cases "samples_outcome a (\<lambda>s. listing_of (parquet e1 s)) (\<lambda>s. listing_of (pickles e1 s)) jd (set r1) ss")
  from samples_outcome_concat [OF rec] obtain m where m: "m \<le> length ss" "err = None \<longrightarrow> m = length ss"
    and ks: "ks = concat (map (\<lambda>s. map (Pair s) (sample_reported a e1 jd r1 s)) (take m ss))"
    unfolding sample_reported_def by blast
  from ks have "map (\<lambda>(s, i). jdl_file a s i) ks =
      concat (map (\<lambda>s. map (jdl_file a s) (sample_reported a e1 jd r1 s)) (take m ss))"
    by (simp add: map_concat comp_def)
  with check_samples_outcome [OF rec, of init_state] m
  have 2: "\<exists>m \<le> length ss.
            (raised (check_samples a e1 jd r1 ss init_state) = None \<longrightarrow> m = length ss) \<and>
            missing_files (final_state (check_samples a e1 jd r1 ss init_state)) =
              concat (map (\<lambda>s. map (jdl_file a s) (sample_reported a e1 jd r1 s)) (take m ss))"
    by (intro exI [of _ m]) (simp add: init_state_def)
  have 3: "sorted_wrt (<) (sample_reported a e1 jd r1 s)" for s
    by (auto simp: sample_reported_def split: sum.splits dest: sample_outcome_sorted)
  from 1 2 3 show ?thesis by blast
qed

theorem reports_determined_and_ordered_witness:
  "(\<forall>s. listing_of (pickles dup_env s) = listing_of (pickles ex_env s)) \<and>
   (\<forall>s. listing_of (parquet dup_env s) = listing_of (parquet ex_env s)) \<and>
   set (ex_running @ ex_running) = set ex_running \<and>
   reports (check_samples ex_args dup_env ex_counts (ex_running @ ex_running) (samples ex_env) init_state) =
     reports (check_samples ex_args ex_env ex_counts ex_running (samples ex_env) init_state) \<and>
   raised (check_samples ex_args dup_env ex_counts (ex_running @ ex_running) (samples ex_env) init_state) = None \<and>
   missing_files (final_state
       (check_samples ex_args dup_env ex_counts (ex_running @ ex_running) (samples ex_env) init_state)) =
     [jdl_file ex_args ''ttbar'' 2, jdl_file ex_args ''qcd'' 0] \<and>
   sorted_wrt (<) (sample_reported ex_args dup_env ex_counts (ex_running @ ex_running) ''ttbar'')"
proof -
  have pk: "\<forall>s. listing_of (pickles dup_env s) = listing_of (pickles ex_env s)"
    by (intro allI listing_of_set) (auto simp: dup_env_def dup_pickles_def ex_env_def)
  have pq: "\<forall>s. listing_of (parquet dup_env s) = listing_of (parquet ex_env s)"
    by (intro allI listing_of_set) (auto simp: dup_env_def dup_parquet_def ex_env_def)
  have rs: "set (ex_running @ ex_running) = set ex_running" by simp
  have r: "raised (check_samples ex_args dup_env ex_counts (ex_running @ ex_running) (samples ex_env) init_state) = None"
    by code_simp
  have m: "missing_files (final_state
       (check_samples ex_args dup_env ex_counts (ex_running @ ex_running) (samples ex_env) init_state)) =
     [jdl_file ex_args ''ttbar'' 2, jdl_file ex_args ''qcd'' 0]"
    by code_simp
  from reports_determined_and_ordered [OF pk pq rs, of ex_args ex_counts "samples ex_env"] pk pq rs r m
  show ?thesis by blast
qed

subsection \<open>The expected count of a sample\<close>

text \<open>
  The claim as stated, C8, says that the expected count of a sample is the largest index
  encoded in its directives plus one. The count is a 64-bit integer of numpy: for the
  directive with the index \<open>2 ^ 63 - 1\<close> the sum wraps, the count is \<open>- 2 ^ 63\<close>, and
  the range of the indices to check is empty.
\<close>

theorem max_index_count_wraps:
  "jdl_indices ''2018'' [''2018_t_9223372036854775807.jdl''] ''t'' = Inr [9223372036854775807] \<and>
   map_sum id (\<lambda>d. d ''t'')
     (build_jdl_dict ''2018'' [''2018_t_9223372036854775807.jdl''] [''t''] Map.empty) =
     Inr (Some (- 9223372036854775808)) \<and>
   Max (set [9223372036854775807]) + 1 \<noteq> (- 9223372036854775808 :: int) \<and>
   range (- 9223372036854775808) = []"
proof -
  have x: "jdl_indices ''2018'' [''2018_t_9223372036854775807.jdl''] ''t'' = Inr [9223372036854775807]"
    by (simp only: jdl_indices_def max_index_token list.map int_each.simps max_index_int
          option.case sum.case)
  have c: "sort_last_plus1 [9223372036854775807] = - 9223372036854775808"
    by (simp add: sort_last_plus1_def int64_def)
  have d: "map_sum id (\<lambda>d. d ''t'')
     (build_jdl_dict ''2018'' [''2018_t_9223372036854775807.jdl''] [''t''] Map.empty) =
     Inr (Some (- 9223372036854775808))"
    by (simp add: x c)
  have r: "range (- 9223372036854775808) = []" by (simp add: range_def)
  from x d r show ?thesis by simp
qed

text \<open>
  Claim C8, as amended. When the dictionary of expected counts is built, every sample in
  storage whose directives (the .jdl names with the given year as first token and the
  sample as middle tokens) exist, with indices that fit in 64 bits, gets the largest of
  these indices plus one, except that the largest index \<open>2 ^ 63 - 1\<close> gives the count
  \<open>- 2 ^ 63\<close>; a sample without such a directive, and anything that is not a sample in
  storage, gets no entry.
\<close>

theorem expected_count_int64:
  assumes "build_jdl_dict yr jdls ss Map.empty = Inr d"
  shows "(s \<in> set ss \<longrightarrow>
           (\<exists>x. jdl_indices yr jdls s = Inr x \<and>
                x = map (the \<circ> py_int \<circ> jdl_index_token) (filter (jdl_matches yr s) jdls) \<and>
                (filter (jdl_matches yr s) jdls = [] \<longrightarrow> d s = None) \<and>
                (filter (jdl_matches yr s) jdls \<noteq> [] \<and> (\<forall>k \<in> set x. fits_int64 k) \<longrightarrow>
                   d s = Some (if Max (set x) = 2 ^ 63 - 1 then - (2 ^ 63) else Max (set x) + 1)))) \<and>
         (s \<notin> set ss \<longrightarrow> d s = None)"
proof -
  note e = build_jdl_dict_entries [OF assms, of s]
  show ?thesis
  proof (cases "s \<in> set ss")
    case False
    with e show ?thesis by simp
  next
    case True
    with e obtain x where x: "jdl_indices yr jdls s = Inr x"
      and d: "d s = (if x = [] then None else Some (sort_last_plus1 x))"
      by auto
    from x have xm: "x = map (the \<circ> py_int \<circ> jdl_index_token) (filter (jdl_matches yr s) jdls)"
      by (auto simp: jdl_indices_def dest: int_each_Inr)
    then have em: "x = [] \<longleftrightarrow> filter (jdl_matches yr s) jdls = []" by simp
    have 1: "d s = None" if "filter (jdl_matches yr s) jdls = []"
      using d em that by simp
    have 2: "d s = Some (if Max (set x) = 2 ^ 63 - 1 then - (2 ^ 63) else Max (set x) + 1)"
      if "filter (jdl_matches yr s) jdls \<noteq> []" "\<forall>k \<in> set x. fits_int64 k"
    proof -
      from that(1) em have ne: "x \<noteq> []" by simp
      from sort_last_plus1_fits [OF ne that(2)] d ne show ?thesis by simp
    qed
    from True x xm 1 2 show ?thesis by blast
  qed
qed

theorem expected_count_int64_witness:
  "''ttbar'' \<in> set (samples ex_env) \<and>
   \<not> isl (build_jdl_dict (year ex_args) (jdls_of ex_env) (samples ex_env) Map.empty) \<and>
   jdl_indices (year ex_args) (jdls_of ex_env) ''ttbar'' = Inr [0, 2, 1] \<and>
   filter (jdl_matches (year ex_args) ''ttbar'') (jdls_of ex_env) \<noteq> [] \<and>
   list_all fits_int64 [0, 2, 1] \<and>
   projr (build_jdl_dict (year ex_args) (jdls_of ex_env) (samples ex_env) Map.empty) ''ttbar'' = Some 3 \<and>
   filter (jdl_matches (year ex_args) ''wjets'') (jdls_of ex_env) = [] \<and>
   projr (build_jdl_dict (year ex_args) (jdls_of ex_env) (samples ex_env) Map.empty) ''wjets'' = None"
proof -
  let ?b = "build_jdl_dict (year ex_args) (jdls_of ex_env) (samples ex_env) Map.empty"
  have ok: "\<not> isl ?b" by code_simp
  then have eq: "?b = Inr (projr ?b)" by (cases ?b) simp_all
  have s: "''ttbar'' \<in> set (samples ex_env)" "''wjets'' \<in> set (samples ex_env)" by code_simp+
  have x: "jdl_indices (year ex_args) (jdls_of ex_env) ''ttbar'' = Inr [0, 2, 1]" by code_simp
  have f: "filter (jdl_matches (year ex_args) ''ttbar'') (jdls_of ex_env) \<noteq> []" by code_simp
  have b: "\<forall>k \<in> set [0, 2, 1]. fits_int64 k" by (simp add: fits_int64_def)
  have w: "filter (jdl_matches (year ex_args) ''wjets'') (jdls_of ex_env) = []" by code_simp
  from expected_count_int64 [OF eq, of "''ttbar''"] s x f b
  have 1: "projr ?b ''ttbar'' = Some 3" by auto
  from expected_count_int64 [OF eq, of "''wjets''"] s w
  have 2: "projr ?b ''wjets'' = None" by auto
  from b have "list_all fits_int64 [0, 2, 1]" by simp
  with ok s x f w 1 2 show ?thesis by simp
qed

subsection \<open>Repeated names in a listing\<close>

text \<open>
  Claim C9. The output listings matter only as sets: replacing the listings of the
  pickles and parquet directories by listings with the same names, repeated or reordered,
  leaves the error raised, both lists and the resubmissions of the run unchanged.
\<close>

theorem duplicate_outputs_ignored:
  assumes "\<forall>s. map_option set (p s) = map_option set (pickles e s)"
    and "\<forall>s. map_option set (q s) = map_option set (parquet e s)"
  shows "reports (run a (e\<lparr>parquet := q, pickles := p\<rparr>)) = reports (run a e)"
proof -
  have 1: "\<forall>s. listing_of (pickles (e\<lparr>parquet := q, pickles := p\<rparr>) s) = listing_of (pickles e s)"
    using assms(1) by (intro allI listing_of_set) simp
  have 2: "\<forall>s. listing_of (parquet (e\<lparr>parquet := q, pickles := p\<rparr>) s) = listing_of (parquet e s)"
    using assms(2) by (intro allI listing_of_set) simp
  have "reports (check_samples a (e\<lparr>parquet := q, pickles := p\<rparr>) jd r ss st) =
      reports (check_samples a e jd r ss st)" for jd r ss st
    by (rule reports_check_samples_cong [OF 1 2 refl])
  then show ?thesis
    by (simp add: reports_run jdls_of_def running_jobs_of_def split: sum.splits)
qed

theorem duplicate_outputs_ignored_witness:
  "(\<forall>s. map_option set (dup_pickles s) = map_option set (pickles ex_env s)) \<and>
   (\<forall>s. map_option set (dup_parquet s) = map_option set (parquet ex_env s)) \<and>
   dup_pickles ''ttbar'' = Some [''out_1.pkl'', ''out_0.pkl'', ''out_0.pkl''] \<and>
   pickles ex_env ''ttbar'' = Some [''out_0.pkl'', ''out_1.pkl''] \<and>
   reports (run ex_args (ex_env\<lparr>parquet := dup_parquet, pickles := dup_pickles\<rparr>)) =
     reports (run ex_args ex_env)"
proof -
  have p: "\<forall>s. map_option set (dup_pickles s) = map_option set (pickles ex_env s)"
    by (auto simp: dup_pickles_def ex_env_def)
  have q: "\<forall>s. map_option set (dup_parquet s) = map_option set (parquet ex_env s)"
    by (auto simp: dup_parquet_def ex_env_def)
  have c: "dup_pickles ''ttbar'' = Some [''out_1.pkl'', ''out_0.pkl'', ''out_0.pkl'']"
    "pickles ex_env ''ttbar'' = Some [''out_0.pkl'', ''out_1.pkl'']"
    by (simp_all add: dup_pickles_def ex_env_def)
  from duplicate_outputs_ignored [OF p q, of ex_args] p q c show ?thesis by simp
qed

subsection \<open>Directives and logs go in pairs\<close>

text \<open>
  Claim C10. Whatever the run does, also when it raises, the list of missing directives
  and the list of error logs have the same length, and at every position the two entries
  are the directive and the log of the same sample and index: there is one list of jobs
  from which both are built. With resubmission switched on, the commands handed to the
  shell are those of the same directives, in the same order.
\<close>

theorem directives_paired_with_logs:
  "\<exists>ks. missing_files (final_state (run a e)) = map (\<lambda>(s, i). jdl_file a s i) ks \<and>
        err_files (final_state (run a e)) = map (\<lambda>(s, i). err_file a s i) ks \<and>
        length (missing_files (final_state (run a e))) = length (err_files (final_state (run a e))) \<and>
        submitted (final_state (run a e)) = submit_cmds a (missing_files (final_state (run a e)))"
proof (cases "build_jdl_dict (year a) (jdls_of e) (samples e) Map.empty")
  case (Inl err)
  with reports_run [of a e] have "reports (run a e) = (Some err, [], [], [])" by simp
  then show ?thesis
    by (auto simp: reports_def submit_cmds_Nil intro: exI [of _ "[]"])
next
  case (Inr jd)
  obtain ks err where rec:
    "samples_outcome a (\<lambda>s. listing_of (parquet e s)) (\<lambda>s. listing_of (pickles e s)) jd
       (set (running_jobs_of a e)) (samples e) = (ks, err)"
    by (cases "samples_outcome a (\<lambda>s. listing_of (parquet e s)) (\<lambda>s. listing_of (pickles e s)) jd
       (set (running_jobs_of a e)) (samples e)")
  with reports_run [of a e] Inr reports_check_samples [of a e jd "running_jobs_of a e" "samples e" init_state]
  have "reports (run a e) =
      (err, map (\<lambda>(s, i). jdl_file a s i) ks, map (\<lambda>(s, i). err_file a s i) ks,
       submit_cmds a (map (\<lambda>(s, i). jdl_file a s i) ks))"
    by (simp add: init_state_def)
  then show ?thesis
    by (auto simp: reports_def intro!: exI [of _ ks])
qed

theorem directives_paired_with_logs_witness:
  "missing_files (final_state (run ex_args ex_env)) =
     [jdl_file ex_args ''ttbar'' 2, jdl_file ex_args ''qcd'' 0] \<and>
   err_files (final_state (run ex_args ex_env)) =
     [err_file ex_args ''ttbar'' 2, err_file ex_args ''qcd'' 0] \<and>
   length (missing_files (final_state (run ex_args ex_env))) =
     length (err_files (final_state (run ex_args ex_env))) \<and>
   submitted (final_state (run ex_args ex_env)) =
     submit_cmds ex_args (missing_files (final_state (run ex_args ex_env)))"
proof -
  have m: "missing_files (final_state (run ex_args ex_env)) =
     [jdl_file ex_args ''ttbar'' 2, jdl_file ex_args ''qcd'' 0]"
    by code_simp
  have l: "err_files (final_state (run ex_args ex_env)) =
     [err_file ex_args ''ttbar'' 2, err_file ex_args ''qcd'' 0]"
    by code_simp
  from directives_paired_with_logs [of ex_args ex_env] m l show ?thesis by auto
qed

end
